theory Spec2Isabelle
  imports Main "HOL-Library.Sublist"
begin

section \<open>Strings and characters\<close>

text \<open>
  A Python \<open>str\<close> is modelled as a \<open>string\<close>; one \<open>char\<close> stands for one code point
  below 256 (the ten quotes of the program are plain ASCII). Lengths therefore count
  code points, as Python's \<open>len\<close> does.
\<close>

datatype error = ValueError | IndexError

definition code :: "char \<Rightarrow> nat" where
  "code c = of_char c"

text \<open>\<open>textwrap._whitespace = '\t\n\x0b\x0c\r '\<close>: the US-ASCII whitespace characters.\<close>

definition ws_char :: "char \<Rightarrow> bool" where
  "ws_char c = (c = CHR 0x09 \<or> c = CHR 0x0A \<or> c = CHR 0x0B \<or> c = CHR 0x0C \<or> c = CHR 0x0D
               \<or> c = CHR 0x20)"

text \<open>\<open>str.isspace\<close> on one code point below 256; it decides what \<open>str.strip()\<close> removes.\<close>

definition isspace :: "char \<Rightarrow> bool" where
  "isspace c = (let n = code c in (9 \<le> n \<and> n \<le> 13) \<or> (28 \<le> n \<and> n \<le> 32) \<or> n = 133 \<or> n = 160)"

text \<open>The classes of the \<open>re\<close> module on a \<open>str\<close> pattern: \<open>\d\<close>, \<open>\w\<close>, and the two
  classes \<open>letter = [^\d\W]\<close> and \<open>word_punct = [\w!"'&.,?]\<close> that \<open>textwrap\<close> builds from them.\<close>

definition re_digit :: "char \<Rightarrow> bool" where
  "re_digit c = (let n = code c in 48 \<le> n \<and> n \<le> 57)"

definition re_word :: "char \<Rightarrow> bool" where
  "re_word c = (let n = code c in
     (48 \<le> n \<and> n \<le> 57) \<or> (65 \<le> n \<and> n \<le> 90) \<or> n = 95 \<or> (97 \<le> n \<and> n \<le> 122)
     \<or> n = 170 \<or> n = 178 \<or> n = 179 \<or> n = 181 \<or> n = 185 \<or> n = 186
     \<or> (188 \<le> n \<and> n \<le> 190) \<or> (192 \<le> n \<and> n \<le> 214) \<or> (216 \<le> n \<and> n \<le> 246)
     \<or> (248 \<le> n \<and> n \<le> 255))"

definition letter :: "char \<Rightarrow> bool" where
  "letter c = (re_word c \<and> \<not> re_digit c)"

definition word_punct :: "char \<Rightarrow> bool" where
  "word_punct c = (re_word c \<or> c = CHR 0x21 \<or> c = CHR 0x22 \<or> c = CHR 0x27 \<or> c = CHR 0x26
                   \<or> c = CHR 0x2E \<or> c = CHR 0x2C \<or> c = CHR 0x3F)"

definition hyphen :: char where
  "hyphen = CHR 0x2D"

text \<open>\<open>sep.join(xs)\<close>.\<close>

fun join :: "string \<Rightarrow> string list \<Rightarrow> string" where
  "join sep [] = []"
| "join sep [x] = x"
| "join sep (x # y # ys) = x @ sep @ join sep (y # ys)"

text \<open>\<open>s.replace(old, new)\<close> for a non-empty \<open>old\<close> (both call sites pass a literal):
  the occurrences are found left to right and do not overlap.\<close>

fun replace :: "string \<Rightarrow> string \<Rightarrow> string \<Rightarrow> string" where
  "replace old new [] = []"
| "replace old new (c # cs) =
     (if old \<noteq> [] \<and> prefix old (c # cs)
      then new @ replace old new (drop (length old - 1) cs)
      else c # replace old new cs)"

text \<open>\<open>s.strip()\<close> with no argument.\<close>

definition strip :: "string \<Rightarrow> string" where
  "strip s = rev (dropWhile isspace (rev (dropWhile isspace s)))"

text \<open>\<open>s.rfind(c, 0, e)\<close> for a single character \<open>c\<close>: the highest index below \<open>e\<close>
  that holds \<open>c\<close>, or \<open>-1\<close>.\<close>

definition rfind :: "char \<Rightarrow> string \<Rightarrow> nat \<Rightarrow> int" where
  "rfind c s e =
     (let p = take e s
      in if c \<in> set p then int (length p - 1 - length (takeWhile (\<lambda>x. x \<noteq> c) (rev p))) else - 1)"

text \<open>\<open>s.expandtabs(tabsize)\<close>; \<open>col\<close> is the column reached so far, reset by a line end.\<close>

fun expandtabs :: "nat \<Rightarrow> nat \<Rightarrow> string \<Rightarrow> string" where
  "expandtabs tabsize col [] = []"
| "expandtabs tabsize col (c # cs) =
     (if c = CHR 0x09 then
        (if tabsize > 0
         then (let incr = tabsize - col mod tabsize
               in replicate incr (CHR 0x20) @ expandtabs tabsize (col + incr) cs)
         else expandtabs tabsize col cs)
      else c # expandtabs tabsize (if c = CHR 0x0A \<or> c = CHR 0x0D then 0 else col + 1) cs)"

section \<open>The \<open>textwrap\<close> module, as \<open>TextWrapper(width)\<close> with every other option at its default\<close>

text \<open>
  The program calls \<open>textwrap.fill(quote, width=32)\<close> and \<open>textwrap.wrap(text, width=32)\<close>
  of the standard library. The definitions of this section follow \<open>textwrap.py\<close> of
  CPython 3.11 method by method, with the options of \<open>TextWrapper\<close> at their defaults:
  \<open>expand_tabs\<close>, \<open>replace_whitespace\<close>, \<open>break_long_words\<close>, \<open>drop_whitespace\<close> and
  \<open>break_on_hyphens\<close> set, \<open>fix_sentence_endings\<close> unset, both indents empty, \<open>tabsize\<close>
  8 and \<open>max_lines\<close> \<open>None\<close>.
\<close>

text \<open>\<open>_munge_whitespace\<close>: tabs are expanded (tab size 8), then every character of
  \<open>_whitespace\<close> becomes a space.\<close>

definition munge_whitespace :: "string \<Rightarrow> string" where
  "munge_whitespace text =
     map (\<lambda>c. if ws_char c then CHR 0x20 else c) (expandtabs 8 0 text)"

text \<open>
  \<open>wordsep_re\<close>. Each function below looks at one position of the text: \<open>bef\<close> is the
  text before the position, reversed (what a look-behind sees), and \<open>s\<close> the text from
  the position on.

  \<open>emdash\<close> is \<open>(?<=word_punct) (?=-{2,}\w)\<close>: a run of two or more hyphens starts here,
  a \<open>\w\<close> character follows the whole run, and a \<open>word_punct\<close> character precedes it.
\<close>

definition emdash :: "string \<Rightarrow> string \<Rightarrow> bool" where
  "emdash bef s =
     ((case bef of [] \<Rightarrow> False | b # _ \<Rightarrow> word_punct b)
      \<and> length (takeWhile (\<lambda>c. c = hyphen) s) \<ge> 2
      \<and> (case dropWhile (\<lambda>c. c = hyphen) s of [] \<Rightarrow> False | c # _ \<Rightarrow> re_word c))"

text \<open>\<open>hyphenated\<close> is
  \<open>-(?: (?<=letter{2}-) | (?<=letter-letter-)) (?= letter -? letter)\<close>
  tried at a position: the hyphen is the first character of \<open>s\<close>.\<close>

definition hyphenated :: "string \<Rightarrow> string \<Rightarrow> bool" where
  "hyphenated bef s =
     (case s of [] \<Rightarrow> False
      | c # cs \<Rightarrow> c = hyphen
          \<and> ((case bef of l1 # l2 # _ \<Rightarrow> letter l1 \<and> letter l2 | _ \<Rightarrow> False)
             \<or> (case bef of l1 # h # l2 # _ \<Rightarrow> letter l1 \<and> h = hyphen \<and> letter l2 | _ \<Rightarrow> False))
          \<and> (case cs of [] \<Rightarrow> False
              | a # r \<Rightarrow> letter a
                  \<and> ((case r of h # b # _ \<Rightarrow> h = hyphen \<and> letter b | _ \<Rightarrow> False)
                     \<or> (case r of b # _ \<Rightarrow> letter b | _ \<Rightarrow> False))))"

text \<open>The third alternative, \<open>nowhitespace+? (?: hyphenated | (?=whitespace|\Z) | emdash)\<close>,
  once its first character is consumed: the lazy \<open>+?\<close> tries each length in turn, so
  \<open>scan_word\<close> gives how many more characters the match takes.\<close>

fun scan_word :: "string \<Rightarrow> string \<Rightarrow> nat" where
  "scan_word bef [] = 0"
| "scan_word bef (c # cs) =
     (if hyphenated bef (c # cs) then 1
      else if ws_char c then 0
      else if emdash bef (c # cs) then 0
      else 1 + scan_word (c # bef) cs)"

text \<open>The length of the match of \<open>wordsep_re\<close> that starts at a position of a non-empty
  rest: a run of whitespace, else an em-dash between words, else a word.\<close>

definition chunk_len :: "string \<Rightarrow> string \<Rightarrow> nat" where
  "chunk_len bef s =
     (case s of [] \<Rightarrow> 0
      | c # cs \<Rightarrow>
          if ws_char c then length (takeWhile ws_char s)
          else if emdash bef s then length (takeWhile (\<lambda>c. c = hyphen) s)
          else 1 + scan_word (c # bef) cs)"

text \<open>
  \<open>_split\<close>: \<open>[c for c in wordsep_re.split(text) if c]\<close>. The pattern is one capturing
  group that matches at every position of a non-empty rest, never the empty string, so
  the pieces between two matches are all empty and the filter leaves the matches.
\<close>

lemma chunk_len_pos: "s \<noteq> [] \<Longrightarrow> 0 < chunk_len bef s"
  by (cases s) (auto simp: chunk_len_def emdash_def)

function split_from :: "string \<Rightarrow> string \<Rightarrow> string list" where
  "split_from bef s =
     (if s = [] then []
      else (let n = chunk_len bef s
            in take n s # split_from (rev (take n s) @ bef) (drop n s)))"
  by pat_completeness auto
termination
  by (relation "measure (\<lambda>(bef, s). length s)") (auto simp: chunk_len_pos)

declare split_from.simps [simp del]

definition split_text :: "string \<Rightarrow> string list" where
  "split_text text = split_from [] text"

text \<open>The inner \<open>while chunks:\<close> loop of \<open>_wrap_chunks\<close>: chunks move to the current line
  while they fit. \<open>chunks\<close> is the stack read from its top, so the head of the list is
  \<open>chunks[-1]\<close>.\<close>

fun take_fitting :: "nat \<Rightarrow> string list \<Rightarrow> string list \<Rightarrow> nat \<Rightarrow> string list \<times> nat \<times> string list" where
  "take_fitting width [] cur_line cur_len = (cur_line, cur_len, [])"
| "take_fitting width (c # cs) cur_line cur_len =
     (if cur_len + length c \<le> width
      then take_fitting width cs (cur_line @ [c]) (cur_len + length c)
      else (cur_line, cur_len, c # cs))"

text \<open>\<open>_handle_long_word\<close> with \<open>break_long_words\<close> and \<open>break_on_hyphens\<close> set; it is only
  called on a non-empty stack. It returns the stack and the current line.
  \<open>cur_len \<le> width\<close> holds where it is called, so \<open>width - cur_len\<close> is not truncated.\<close>

definition handle_long_word ::
    "nat \<Rightarrow> string list \<Rightarrow> string list \<Rightarrow> nat \<Rightarrow> string list \<times> string list" where
  "handle_long_word width reversed_chunks cur_line cur_len =
     (let space_left = (if width < 1 then 1 else width - cur_len);
          chunk = hd reversed_chunks;
          hy = rfind hyphen chunk space_left;
          end = (if length chunk > space_left \<and> hy > 0
                    \<and> (\<exists>c \<in> set (take (nat hy) chunk). c \<noteq> hyphen)
                 then nat (hy + 1) else space_left)
      in (drop end chunk # tl reversed_chunks, cur_line @ [take end chunk]))"

text \<open>One pass of the outer \<open>while chunks:\<close> loop of \<open>_wrap_chunks\<close>, for a non-empty
  stack: the new stack and the lines so far. (\<open>max_lines\<close> is \<open>None\<close>, both indents are
  empty, \<open>drop_whitespace\<close> is set. The source updates \<open>cur_len\<close> after a long word and
  after dropping a chunk; with \<open>max_lines\<close> \<open>None\<close> that value is not read again.)\<close>

definition wrap_step :: "nat \<Rightarrow> string list \<Rightarrow> string list \<Rightarrow> string list \<times> string list" where
  "wrap_step width chunks lines =
     (let chunks1 = (if strip (hd chunks) = [] \<and> lines \<noteq> [] then tl chunks else chunks);
          (cur_line, cur_len, chunks2) = take_fitting width chunks1 [] 0;
          (chunks3, cur_line3) =
             (if chunks2 \<noteq> [] \<and> length (hd chunks2) > width
              then handle_long_word width chunks2 cur_line cur_len
              else (chunks2, cur_line));
          cur_line4 = (if cur_line3 \<noteq> [] \<and> strip (last cur_line3) = []
                       then butlast cur_line3 else cur_line3)
      in (chunks3, if cur_line4 \<noteq> [] then lines @ [concat cur_line4] else lines))"

text \<open>The size of a stack of chunks: its characters and its entries. Every pass of the
  outer loop makes it smaller.\<close>

definition stack_size :: "string list \<Rightarrow> nat" where
  "stack_size cs = sum_list (map length cs) + length cs"

lemma take_fitting_split:
  "take_fitting width cs cl n = (cl', n', cs') \<Longrightarrow>
     \<exists>pre. cs = pre @ cs' \<and> cl' = cl @ pre \<and> n' = n + sum_list (map length pre)"
proof (induction cs arbitrary: cl n)
  case Nil
  then show ?case by simp
next
  case (Cons c cs)
  show ?case
  proof (cases "n + length c \<le> width")
    case True
    with Cons.prems have "take_fitting width cs (cl @ [c]) (n + length c) = (cl', n', cs')"
      by simp
    from Cons.IH [OF this] obtain pre where
      "cs = pre @ cs'" "cl' = (cl @ [c]) @ pre" "n' = n + length c + sum_list (map length pre)"
      by blast
    then have "c # cs = (c # pre) @ cs' \<and> cl' = cl @ (c # pre)
        \<and> n' = n + sum_list (map length (c # pre))"
      by simp
    then show ?thesis by blast
  next
    case False
    with Cons.prems show ?thesis by auto
  qed
qed

lemma take_fitting_stop:
  "take_fitting width cs cl n = (cl', n', cs') \<Longrightarrow> cs' \<noteq> [] \<Longrightarrow> width < n' + length (hd cs')"
  by (induction cs arbitrary: cl n) (auto split: if_splits)

lemma take_fitting_bound:
  "take_fitting width cs cl n = (cl', n', cs') \<Longrightarrow> n \<le> width \<Longrightarrow> n' \<le> width"
  by (induction cs arbitrary: cl n) (auto split: if_splits)

lemma stack_size_append: "stack_size (xs @ ys) = stack_size xs + stack_size ys"
  by (simp add: stack_size_def)

lemma stack_size_pos: "xs \<noteq> [] \<Longrightarrow> 0 < stack_size xs"
  by (cases xs) (simp_all add: stack_size_def)

lemma handle_long_word_size:
  assumes "cs \<noteq> []" and "handle_long_word width cs cl n = (cs', cl')"
  shows "stack_size cs' \<le> stack_size cs"
proof -
  obtain c rest where cs: "cs = c # rest" using assms(1) by (cases cs) auto
  from assms(2) obtain e where "cs' = drop e c # rest"
    by (auto simp: handle_long_word_def Let_def cs)
  then show ?thesis by (simp add: stack_size_def cs)
qed

lemma handle_long_word_shrinks:
  assumes "cs \<noteq> []" and "width < length (hd cs)"
    and "handle_long_word width cs cl 0 = (cs', cl')"
  shows "stack_size cs' < stack_size cs"
proof -
  obtain c rest where cs: "cs = c # rest" using assms(1) by (cases cs) auto
  have c: "c \<noteq> []" using assms(2) cs by auto
  from assms(3) obtain e where e: "cs' = drop e c # rest" "0 < e"
    by (auto simp: handle_long_word_def Let_def cs split: if_splits)
  from c e(2) have "length (drop e c) < length c" by (cases c) auto
  then show ?thesis by (simp add: stack_size_def cs e(1))
qed

lemma wrap_step_shrinks:
  assumes "chunks \<noteq> []"
  shows "stack_size (fst (wrap_step width chunks lines)) < stack_size chunks"
proof -
  define chunks1 where "chunks1 = (if strip (hd chunks) = [] \<and> lines \<noteq> [] then tl chunks else chunks)"
  obtain cur_line cur_len chunks2 where tf: "take_fitting width chunks1 [] 0 = (cur_line, cur_len, chunks2)"
    by (cases "take_fitting width chunks1 [] 0") auto
  define r where "r = (if chunks2 \<noteq> [] \<and> length (hd chunks2) > width
              then handle_long_word width chunks2 cur_line cur_len
              else (chunks2, cur_line))"
  have res: "fst (wrap_step width chunks lines) = fst r"
    by (simp add: wrap_step_def Let_def chunks1_def [symmetric] tf r_def [symmetric] split: prod.splits)
  from take_fitting_split [OF tf] obtain pre where
    pre: "chunks1 = pre @ chunks2" "cur_line = pre" "cur_len = sum_list (map length pre)"
    by auto
  have r_le: "stack_size (fst r) \<le> stack_size chunks2"
    using handle_long_word_size [of chunks2 width cur_line cur_len]
    by (cases "handle_long_word width chunks2 cur_line cur_len") (auto simp: r_def)
  have c1_le: "stack_size chunks1 \<le> stack_size chunks"
    using assms by (cases chunks) (auto simp: chunks1_def stack_size_def)
  show ?thesis
  proof (cases "chunks1 = chunks")
    case False
    then have "chunks1 = tl chunks" by (auto simp: chunks1_def split: if_splits)
    then have "stack_size chunks1 < stack_size chunks"
      using assms by (cases chunks) (auto simp: stack_size_def)
    moreover have "stack_size chunks2 \<le> stack_size chunks1"
      by (simp add: pre(1) stack_size_append)
    ultimately show ?thesis using r_le res by simp
  next
    case same: True
    show ?thesis
    proof (cases "pre = []")
      case False
      then have "stack_size chunks2 < stack_size chunks1"
        using stack_size_pos [of pre] by (simp add: pre(1) stack_size_append)
      then show ?thesis using r_le res c1_le by simp
    next
      case True
      then have c2: "chunks2 = chunks" "cur_len = 0" "cur_line = []"
        using pre same by auto
      from take_fitting_stop [OF tf] assms c2 have long: "width < length (hd chunks2)"
        by simp
      then have "r = handle_long_word width chunks2 cur_line 0"
        using assms c2 by (simp add: r_def)
      then have "stack_size (fst r) < stack_size chunks2"
        using handle_long_word_shrinks [of chunks2 width cur_line "fst r" "snd r"] assms c2 long
        by simp
      then show ?thesis using res c2 by simp
    qed
  qed
qed

text \<open>The outer loop of \<open>_wrap_chunks\<close>, from a stack and the lines so far to the lines
  returned.\<close>

function wrap_loop :: "nat \<Rightarrow> string list \<Rightarrow> string list \<Rightarrow> string list" where
  "wrap_loop width chunks lines =
     (if chunks = [] then lines
      else (case wrap_step width chunks lines of (chunks', lines') \<Rightarrow> wrap_loop width chunks' lines'))"
  by pat_completeness auto
termination
  by (relation "measure (\<lambda>(width, chunks, lines). stack_size chunks)")
     (auto simp: case_prod_beta wrap_step_shrinks)

declare wrap_loop.simps [simp del]

text \<open>\<open>_wrap_chunks\<close>: the width check, then the loop on the reversed list read from its
  end, that is on the list read from its front.\<close>

definition wrap_chunks :: "int \<Rightarrow> string list \<Rightarrow> error + string list" where
  "wrap_chunks width chunks =
     (if width \<le> 0 then Inl ValueError else Inr (wrap_loop (nat width) chunks []))"

text \<open>\<open>textwrap.wrap(text, width=width)\<close> and \<open>textwrap.fill(text, width=width)\<close>.\<close>

definition textwrap_wrap :: "string \<Rightarrow> int \<Rightarrow> error + string list" where
  "textwrap_wrap text width = wrap_chunks width (split_text (munge_whitespace text))"

definition textwrap_fill :: "string \<Rightarrow> int \<Rightarrow> error + string" where
  "textwrap_fill text width =
     (case textwrap_wrap text width of Inl e \<Rightarrow> Inl e | Inr ls \<Rightarrow> Inr (join [CHR 0x0A] ls))"

section \<open>The program: \<open>generate_quote_image.py\<close>\<close>

text \<open>\<open>str(n)\<close> of an integer, as an f-string field prints it.\<close>

fun digits :: "nat \<Rightarrow> string" where
  "digits n = (if n < 10 then [''0123456789'' ! n]
               else digits (n div 10) @ [''0123456789'' ! (n mod 10)])"

declare digits.simps [simp del]

definition str_int :: "int \<Rightarrow> string" where
  "str_int i = (if i < 0 then CHR 0x2D # digits (nat (- i)) else digits (nat i))"

subsection \<open>The state the program runs in\<close>

text \<open>The parameter \<open>size\<close> of the source is written \<open>sz\<close> below.\<close>

type_synonym rgb = "int \<times> int \<times> int"

text \<open>A font object of the imaging library: one loaded from a file at a size, or the
  built-in face.\<close>

datatype font = TrueType string int | DefaultFont

text \<open>What was painted on a canvas, in order.\<close>

datatype draw_op =
    Rectangle "int \<times> int \<times> int \<times> int" rgb
  | Text "int \<times> int" string font rgb

record image =
  img_size :: "int \<times> int"
  img_color :: rgb
  img_ops :: "draw_op list"

datatype content = Markup string | Bitmap image

text \<open>
  The module globals \<open>QUOTES\<close> and \<open>PIL_AVAILABLE\<close> (set once, when the module is
  loaded), the files and directories on disk, and what was printed. Writing a file or
  making a directory is taken to succeed: a failure of the file system ends the run
  with an uncaught error and is not part of this model.
\<close>

record world =
  quotes :: "string list"
  pil_available :: bool
  files :: "string \<rightharpoonup> content"
  dirs :: "string set"
  stdout :: "string list"

text \<open>
  The imaging library, where it is installed: \<open>ImageFont.truetype(path, size)\<close> (\<open>None\<close>
  where it raises), \<open>ImageFont.load_default()\<close>, and \<open>draw.textbbox((0, 0), text, font)\<close>
  as the tuple \<open>(left, top, right, bottom)\<close>.
\<close>

record pil =
  truetype :: "string \<Rightarrow> int \<Rightarrow> font option"
  load_default :: font
  textbbox :: "font \<Rightarrow> string \<Rightarrow> int \<times> int \<times> int \<times> int"

subsection \<open>The quote table and \<open>pick_quote\<close>\<close>

definition QUOTES :: "string list" where
  "QUOTES =
   [''The only limit to our realization of tomorrow is our doubts of today.'',
    ''Do something today that your future self will thank you for.'',
    ''Small steps every day lead to big changes over time.'',
    ''Believe you can and you're halfway there.'',
    ''Progress, not perfection.'',
    ''Start where you are. Use what you have. Do what you can.'',
    ''Your only limit is you.'',
    ''Dream big. Start small. Act now.'',
    ''Consistency compounds into results.'',
    ''Be stronger than your excuses.'']"

text \<open>The state once the module is loaded; \<open>avail\<close> tells whether the three imports of
  the imaging library went through.\<close>

definition initial_world :: "bool \<Rightarrow> (string \<rightharpoonup> content) \<Rightarrow> string set \<Rightarrow> world" where
  "initial_world avail fs ds =
     \<lparr>quotes = QUOTES, pil_available = avail, files = fs, dirs = ds, stdout = []\<rparr>"

text \<open>\<open>random.choice(seq)\<close>: \<open>IndexError\<close> on an empty sequence, else
  \<open>seq[self._randbelow(len(seq))]\<close>. \<open>randbelow\<close> is the draw of the generator.\<close>

definition random_choice :: "(nat \<Rightarrow> nat) \<Rightarrow> 'a list \<Rightarrow> error + 'a" where
  "random_choice randbelow seq =
     (if length seq = 0 then Inl IndexError
      else (let i = randbelow (length seq)
            in if i < length seq then Inr (seq ! i) else Inl IndexError))"

definition pick_quote :: "(nat \<Rightarrow> nat) \<Rightarrow> world \<Rightarrow> error + string" where
  "pick_quote randbelow w = random_choice randbelow (quotes w)"

subsection \<open>The vector renderer\<close>

definition nl :: string where
  "nl = [CHR 0x0A]"

text \<open>The text placed inside the inner \<open>div\<close>: \<open>wrapped.replace('\n', '<br/>')\<close>.\<close>

definition embedded_text :: "string \<Rightarrow> string" where
  "embedded_text wrapped = replace nl ''<br/>'' wrapped"

definition make_svg_text_block :: "string \<Rightarrow> int \<Rightarrow> error + string" where
  \<open>make_svg_text_block quote sz =
     (let max_chars = 32
      in case textwrap_fill quote max_chars of
           Inl e \<Rightarrow> Inl e
         | Inr wrapped \<Rightarrow> Inr (
             ''<?xml version="1.0" encoding="UTF-8"?>'' @ nl
           @ ''<svg xmlns="http://www.w3.org/2000/svg" width="'' @ str_int sz
             @ ''px" height="'' @ str_int sz @ ''px" viewBox="0 0 '' @ str_int sz
             @ '' '' @ str_int sz @ ''">'' @ nl
           @ ''  <rect width="100%" height="100%" fill="#0f172a" />'' @ nl
           @ ''  <rect x="40" y="40" width="'' @ str_int (sz - 80) @ ''" height="''
             @ str_int (sz - 80) @ ''" rx="40" ry="40" fill="#0b1220" opacity="0.9" />'' @ nl
           @ ''  <g fill="#ffffff" font-family="-apple-system, BlinkMacSystemFont, 'Segoe UI', Roboto, 'Helvetica Neue', Arial" font-size="48">'' @ nl
           @ ''    <foreignObject x="80" y="120" width="'' @ str_int (sz - 160)
             @ ''" height="'' @ str_int (sz - 240) @ ''">'' @ nl
           @ ''      <body xmlns="http://www.w3.org/1999/xhtml" style="margin:0;">'' @ nl
           @ ''        <div style="font-size:48px; line-height:1.15; color:#ffffff; display:flex; align-items:center; justify-content:center; height:100%; text-align:center;">'' @ nl
           @ ''          <div>'' @ embedded_text wrapped @ ''</div>'' @ nl
           @ ''        </div>'' @ nl
           @ ''      </body>'' @ nl
           @ ''    </foreignObject>'' @ nl
           @ ''  </g>'' @ nl
           @ ''</svg>'' @ nl))\<close>

definition save_svg :: "string \<Rightarrow> string \<Rightarrow> world \<Rightarrow> world" where
  "save_svg svg out_path w = w\<lparr>files := (files w)(out_path \<mapsto> Markup svg)\<rparr>"

subsection \<open>The raster renderer\<close>

definition image_new :: "int \<times> int \<Rightarrow> rgb \<Rightarrow> image" where
  "image_new sz color = \<lparr>img_size = sz, img_color = color, img_ops = []\<rparr>"

definition draw_rectangle :: "image \<Rightarrow> int \<times> int \<times> int \<times> int \<Rightarrow> rgb \<Rightarrow> image" where
  "draw_rectangle img box fill = img\<lparr>img_ops := img_ops img @ [Rectangle box fill]\<rparr>"

definition draw_text :: "image \<Rightarrow> int \<times> int \<Rightarrow> string \<Rightarrow> font \<Rightarrow> rgb \<Rightarrow> image" where
  "draw_text img xy line fnt fill = img\<lparr>img_ops := img_ops img @ [Text xy line fnt fill]\<rparr>"

definition possible_fonts :: "string list" where
  "possible_fonts =
   [''/Library/Fonts/Arial Unicode.ttf'',
    ''/Library/Fonts/Arial.ttf'',
    ''/System/Library/Fonts/SFNNSF-Regular.otf'']"

text \<open>The loop over \<open>possible_fonts\<close>: the variable \<open>font\<close> after it. A path that loads
  ends the loop (\<open>break\<close>); one that raises sets \<open>font = None\<close> and the loop goes on.\<close>

fun font_loop :: "pil \<Rightarrow> string list \<Rightarrow> font option \<Rightarrow> font option" where
  "font_loop lib [] fnt = fnt"
| "font_loop lib (p # ps) fnt =
     (case truetype lib p 48 of
        Some f \<Rightarrow> Some f
      | None \<Rightarrow> font_loop lib ps None)"

definition select_font :: "pil \<Rightarrow> font" where
  "select_font lib =
     (case font_loop lib possible_fonts None of
        None \<Rightarrow> load_default lib
      | Some f \<Rightarrow> f)"

text \<open>\<open>total_h = line_h * len(lines) + (len(lines)-1) * 6\<close> and
  \<open>y = (size - total_h) // 2\<close>; \<open>n\<close> is \<open>len(lines)\<close>.\<close>

definition total_h :: "int \<Rightarrow> int \<Rightarrow> int" where
  "total_h line_h n = line_h * n + (n - 1) * 6"

definition first_y :: "int \<Rightarrow> int \<Rightarrow> int \<Rightarrow> int" where
  "first_y sz line_h n = (sz - total_h line_h n) div 2"

text \<open>The loop \<open>for line in lines\<close>: each line is measured, centred and drawn, and \<open>y\<close>
  moves down by the line's own height and 6.\<close>

fun draw_lines :: "pil \<Rightarrow> font \<Rightarrow> int \<Rightarrow> string list \<Rightarrow> int \<Rightarrow> image \<Rightarrow> image" where
  "draw_lines lib fnt sz [] y img = img"
| "draw_lines lib fnt sz (line # rest) y img =
     (case textbbox lib fnt line of (b0, b1, b2, b3) \<Rightarrow>
        (let w = b2 - b0;
             h = b3 - b1;
             x = (sz - w) div 2
         in draw_lines lib fnt sz rest (y + h + 6)
              (draw_text img (x, y) line fnt (255, 255, 255))))"

text \<open>\<open>QUOTES[0]\<close>.\<close>

definition first_quote :: "world \<Rightarrow> error + string" where
  "first_quote w = (case quotes w of [] \<Rightarrow> Inl IndexError | q # _ \<Rightarrow> Inr q)"

text \<open>\<open>rasterize_svg_to_png(svg_path, png_path, size, quote)\<close>: the value returned and
  the state left behind, or the error raised.\<close>

definition rasterize_svg_to_png ::
    "pil \<Rightarrow> world \<Rightarrow> string \<Rightarrow> string \<Rightarrow> int \<Rightarrow> string option \<Rightarrow> error + bool \<times> world" where
  "rasterize_svg_to_png lib w svg_path png_path sz quote =
     (if \<not> pil_available w then Inr (False, w)
      else
        (let img0 = image_new (sz, sz) (15, 23, 42);
             fnt = select_font lib;
             margin = 40;
             inner_color = (11, 18, 32);
             img1 = draw_rectangle img0 (margin, margin, sz - margin, sz - margin) inner_color
         in case (case quote of Some q \<Rightarrow> Inr q | None \<Rightarrow> first_quote w) of
              Inl e \<Rightarrow> Inl e
            | Inr text \<Rightarrow>
               (let max_chars = 32
                in case textwrap_wrap text max_chars of
                     Inl e \<Rightarrow> Inl e
                   | Inr lines \<Rightarrow>
                      (case textbbox lib fnt ''A'' of (b0, b1, b2, b3) \<Rightarrow>
                         (let line_h = b3 - b1;
                              y = first_y sz line_h (int (length lines));
                              img2 = draw_lines lib fnt sz lines y img1
                          in Inr (True, w\<lparr>files := (files w)(png_path \<mapsto> Bitmap img2)\<rparr>))))))"

subsection \<open>\<open>main\<close>\<close>

definition print :: "string \<Rightarrow> world \<Rightarrow> world" where
  "print line w = w\<lparr>stdout := stdout w @ [line]\<rparr>"

definition mkdir :: "string \<Rightarrow> world \<Rightarrow> world" where
  "mkdir d w = w\<lparr>dirs := insert d (dirs w)\<rparr>"

text \<open>\<open>main()\<close>; \<open>base\<close> is the directory of the script and \<open>ts\<close> the time stamp
  \<open>datetime.now().strftime("%Y%m%d-%H%M%S")\<close>.\<close>

definition main :: "pil \<Rightarrow> (nat \<Rightarrow> nat) \<Rightarrow> string \<Rightarrow> string \<Rightarrow> world \<Rightarrow> error + world" where
  "main lib randbelow base ts w =
     (let out_dir = base @ ''/outputs'';
          w1 = mkdir out_dir w
      in case pick_quote randbelow w1 of
           Inl e \<Rightarrow> Inl e
         | Inr quote \<Rightarrow>
            (let sz = 1080
             in case make_svg_text_block quote sz of
                  Inl e \<Rightarrow> Inl e
                | Inr svg \<Rightarrow>
                   (let svg_name = ''quote-'' @ ts @ ''.svg'';
                        svg_path = out_dir @ ''/'' @ svg_name;
                        w2 = save_svg svg svg_path w1;
                        w3 = print (''Saved SVG to: '' @ svg_path) w2;
                        png_path = out_dir @ ''/'' @ ''quote-'' @ ts @ ''.png''
                    in case rasterize_svg_to_png lib w3 svg_path png_path sz (Some quote) of
                         Inl e \<Rightarrow> Inl e
                       | Inr (rasterized, w4) \<Rightarrow>
                           Inr (if rasterized
                                then print (''Saved PNG to: '' @ png_path) w4
                                else print ''Pillow not available or rasterization skipped. PNG not created.'' w4))))"

subsection \<open>Reading a result\<close>





text \<open>What a caller of the raster renderer can see of a call: the error raised, or the
  value returned together with the image written at \<open>png_path\<close> when one was.\<close>

definition outcome :: "string \<Rightarrow> error + bool \<times> world \<Rightarrow> error + bool \<times> content option" where
  "outcome png_path r =
     (case r of Inl e \<Rightarrow> Inl e
      | Inr (b, w') \<Rightarrow> Inr (b, if b then files w' png_path else None))"




subsection \<open>Two imaging libraries to run the program on\<close>

text \<open>One where no candidate font file loads, and one where only the second does. Both
  measure a text as 20 units a character, from 3 to 40 units down.\<close>

definition plain_pil :: pil where
  "plain_pil = \<lparr>truetype = (\<lambda>p s. None), load_default = DefaultFont,
                 textbbox = (\<lambda>f t. (0, 3, 20 * int (length t), 40))\<rparr>"


section \<open>Properties\<close>

lemma textwrap_wrap_32:
  "textwrap_wrap text 32 = Inr (wrap_loop 32 (split_text (munge_whitespace text)) [])"
  by (simp add: textwrap_wrap_def wrap_chunks_def)

lemma textwrap_fill_32:
  "textwrap_fill text 32 = Inr (join [CHR 0x0A] (wrap_loop 32 (split_text (munge_whitespace text)) []))"
  by (simp add: textwrap_fill_def textwrap_wrap_32)

lemma rasterize_text:
  assumes "pil_available w"
    and "(case quote of Some q \<Rightarrow> Inr q | None \<Rightarrow> first_quote w) = Inr text"
    and "textbbox lib (select_font lib) ''A'' = (b0, b1, b2, b3)"
    and "textwrap_wrap text 32 = Inr lines"
  shows "rasterize_svg_to_png lib w svg_path png_path sz quote
     = Inr (True, w\<lparr>files := (files w)(png_path \<mapsto> Bitmap
         (draw_lines lib (select_font lib) sz lines (first_y sz (b3 - b1) (int (length lines)))
            (draw_rectangle (image_new (sz, sz) (15, 23, 42)) (40, 40, sz - 40, sz - 40)
               (11, 18, 32))))\<rparr>)"
  using assms by (simp add: rasterize_svg_to_png_def Let_def)

lemma rasterize_no_text:
  assumes "pil_available w"
    and "(case quote of Some q \<Rightarrow> Inr q | None \<Rightarrow> first_quote w) = Inl e"
  shows "rasterize_svg_to_png lib w svg_path png_path sz quote = Inl e"
  using assms by (simp add: rasterize_svg_to_png_def Let_def)

subsection \<open>The raster renderer without the imaging library\<close>

text \<open>
  C4. If the flag \<open>PIL_AVAILABLE\<close> recorded when the module was loaded is false,
  \<open>rasterize_svg_to_png\<close> returns \<open>False\<close> and leaves the whole state as it was (no file
  written, nothing printed, no global changed), whatever its arguments are.
\<close>

theorem rasterize_unavailable:
  "\<not> pil_available w \<Longrightarrow>
     rasterize_svg_to_png lib w svg_path png_path sz quote = Inr (False, w)"
  by (simp add: rasterize_svg_to_png_def)

theorem rasterize_unavailable_witness:
  "\<not> pil_available (initial_world False Map.empty {})
   \<and> rasterize_svg_to_png plain_pil (initial_world False Map.empty {}) ''q.svg'' ''q.png'' 1080 None
       = Inr (False, initial_world False Map.empty {})"
  using rasterize_unavailable
    [of "initial_world False Map.empty {}" plain_pil "''q.svg''" "''q.png''" 1080 None]
  by (simp add: initial_world_def)

subsection \<open>Font selection\<close>



lemma rasterize_returns:
  assumes "pil_available w"
  shows "\<exists>img. rasterize_svg_to_png lib w svg_path png_path sz (Some q)
           = Inr (True, w\<lparr>files := (files w)(png_path \<mapsto> Bitmap img)\<rparr>)"
  using assms
  by (auto simp: rasterize_svg_to_png_def textwrap_wrap_32 Let_def split: prod.splits)



subsection \<open>The arguments of the raster renderer\<close>

lemma rasterize_reads_no_file:
  "outcome png_path (rasterize_svg_to_png lib (w\<lparr>files := fs\<rparr>) svg_path1 png_path sz quote)
     = outcome png_path (rasterize_svg_to_png lib w svg_path2 png_path sz quote)"
proof -
  let ?w = "w\<lparr>files := fs\<rparr>"
  let ?t = "case quote of Some q \<Rightarrow> Inr q | None \<Rightarrow> first_quote w"
  have same: "(case quote of Some q \<Rightarrow> Inr q | None \<Rightarrow> first_quote ?w) = ?t"
    by (cases quote) (simp_all add: first_quote_def)
  show ?thesis
  proof (cases "pil_available w")
    case False
    then show ?thesis by (simp add: rasterize_svg_to_png_def outcome_def)
  next
    case True
    then have av: "pil_available ?w" by simp
    show ?thesis
    proof (cases "?t")
      case (Inl e)
      from rasterize_no_text [OF True Inl] rasterize_no_text [OF av, of quote e] same Inl
      show ?thesis by (simp add: outcome_def)
    next
      case (Inr t)
      obtain b0 b1 b2 b3 where bb: "textbbox lib (select_font lib) ''A'' = (b0, b1, b2, b3)"
        by (cases "textbbox lib (select_font lib) ''A''") auto
      have t': "(case quote of Some q \<Rightarrow> Inr q | None \<Rightarrow> first_quote ?w) = Inr t"
        using same Inr by simp
      show ?thesis
        by (simp add: rasterize_text [OF True Inr bb textwrap_wrap_32]
              rasterize_text [OF av t' bb textwrap_wrap_32] outcome_def)
    qed
  qed
qed

text \<open>
  C9. The raster renderer does not depend on \<open>svg_path\<close>: with the same library, state,
  \<open>png_path\<close>, size and quote, two values of \<open>svg_path\<close> give the same result and the same
  final state; and whatever files are on disk (\<open>fs\<close>, in place of the files of the
  state), the value returned and the image written are the same, so the file at
  \<open>svg_path\<close> is never read.
\<close>

theorem svg_path_ignored:
  "rasterize_svg_to_png lib w svg_path1 png_path sz quote
     = rasterize_svg_to_png lib w svg_path2 png_path sz quote
   \<and> outcome png_path (rasterize_svg_to_png lib (w\<lparr>files := fs\<rparr>) svg_path1 png_path sz quote)
     = outcome png_path (rasterize_svg_to_png lib w svg_path2 png_path sz quote)"
proof
  show "rasterize_svg_to_png lib w svg_path1 png_path sz quote
     = rasterize_svg_to_png lib w svg_path2 png_path sz quote"
    by (simp add: rasterize_svg_to_png_def)
next
  show "outcome png_path (rasterize_svg_to_png lib (w\<lparr>files := fs\<rparr>) svg_path1 png_path sz quote)
     = outcome png_path (rasterize_svg_to_png lib w svg_path2 png_path sz quote)"
    by (rule rasterize_reads_no_file)
qed



subsection \<open>The layout of the raster block\<close>








subsection \<open>The quote table\<close>

lemma make_svg_returns: "\<exists>doc. make_svg_text_block quote sz = Inr doc"
  by (simp add: make_svg_text_block_def textwrap_fill_32)

lemma random_choice_member: "random_choice randbelow seq = Inr x \<Longrightarrow> x \<in> set seq"
  by (auto simp: random_choice_def Let_def split: if_splits)

lemma rasterize_quotes:
  assumes "rasterize_svg_to_png lib w svg_path png_path sz quote = Inr (b, w')"
  shows "quotes w' = quotes w"
proof (cases "pil_available w")
  case False
  with assms show ?thesis by (simp add: rasterize_svg_to_png_def)
next
  case True
  show ?thesis
  proof (cases "case quote of Some q \<Rightarrow> Inr q | None \<Rightarrow> first_quote w")
    case (Inl e)
    from rasterize_no_text [OF True Inl] assms show ?thesis by simp
  next
    case (Inr t)
    obtain b0 b1 b2 b3 where bb: "textbbox lib (select_font lib) ''A'' = (b0, b1, b2, b3)"
      by (cases "textbbox lib (select_font lib) ''A''") auto
    from rasterize_text [OF True Inr bb textwrap_wrap_32, of svg_path png_path sz] assms
    show ?thesis by auto
  qed
qed

lemma main_quotes:
  assumes "main lib randbelow base ts w = Inr w'"
  shows "quotes w' = quotes w"
proof -
  define w1 where "w1 = mkdir (base @ ''/outputs'') w"
  obtain quote where q: "pick_quote randbelow w1 = Inr quote"
    using assms by (cases "pick_quote randbelow w1") (simp_all add: main_def Let_def w1_def)
  obtain svg where s: "make_svg_text_block quote 1080 = Inr svg"
    using make_svg_returns by blast
  define svg_path where "svg_path = (base @ ''/outputs'') @ ''/'' @ ''quote-'' @ ts @ ''.svg''"
  define png_path where "png_path = (base @ ''/outputs'') @ ''/'' @ ''quote-'' @ ts @ ''.png''"
  define w3 where "w3 = print (''Saved SVG to: '' @ svg_path) (save_svg svg svg_path w1)"
  have q3: "quotes w3 = quotes w"
    by (simp add: w3_def w1_def print_def save_svg_def mkdir_def)
  obtain b w4 where r: "rasterize_svg_to_png lib w3 svg_path png_path 1080 (Some quote) = Inr (b, w4)"
    using assms q s
    by (cases "rasterize_svg_to_png lib w3 svg_path png_path 1080 (Some quote)")
       (auto simp: main_def Let_def w1_def w3_def svg_path_def png_path_def)
  have w': "w' = (if b then print (''Saved PNG to: '' @ png_path) w4
                  else print ''Pillow not available or rasterization skipped. PNG not created.'' w4)"
    using assms q s r by (auto simp: main_def Let_def w1_def w3_def svg_path_def png_path_def)
  from rasterize_quotes [OF r] q3 show ?thesis by (simp add: w' print_def)
qed

lemma main_returns:
  assumes "quotes w = QUOTES" and "randbelow 10 < 10"
  shows "\<exists>w'. main lib randbelow base ts w = Inr w'"
proof -
  define w1 where "w1 = mkdir (base @ ''/outputs'') w"
  have "length QUOTES = 10" by (simp add: QUOTES_def)
  then obtain quote where q: "pick_quote randbelow w1 = Inr quote"
    using assms by (simp add: pick_quote_def random_choice_def w1_def mkdir_def Let_def)
  obtain svg where s: "make_svg_text_block quote 1080 = Inr svg"
    using make_svg_returns by blast
  define svg_path where "svg_path = (base @ ''/outputs'') @ ''/'' @ ''quote-'' @ ts @ ''.svg''"
  define png_path where "png_path = (base @ ''/outputs'') @ ''/'' @ ''quote-'' @ ts @ ''.png''"
  define w3 where "w3 = print (''Saved SVG to: '' @ svg_path) (save_svg svg svg_path w1)"
  have "\<exists>b w4. rasterize_svg_to_png lib w3 svg_path png_path 1080 (Some quote) = Inr (b, w4)"
  proof (cases "pil_available w3")
    case True
    from rasterize_returns [OF True] show ?thesis by blast
  next
    case False
    then show ?thesis by (auto simp: rasterize_svg_to_png_def)
  qed
  then obtain b w4 where r: "rasterize_svg_to_png lib w3 svg_path png_path 1080 (Some quote) = Inr (b, w4)"
    by blast
  show ?thesis
    using q s r by (simp add: main_def Let_def w1_def w3_def svg_path_def png_path_def)
qed

text \<open>
  C6. The table \<open>QUOTES\<close> has ten entries; in a state that holds this table, every
  quote \<open>pick_quote\<close> returns is one of them; and no operation of the program changes
  the table: it is the same after \<open>save_svg\<close>, after \<open>rasterize_svg_to_png\<close> and after
  \<open>main\<close> (\<open>pick_quote\<close> and \<open>make_svg_text_block\<close> return a value and no state).
\<close>

theorem quote_table_fixed:
  assumes "quotes w = QUOTES"
  shows "length QUOTES = 10
    \<and> (\<forall>q. pick_quote randbelow w = Inr q \<longrightarrow> q \<in> set QUOTES)
    \<and> quotes (save_svg svg out_path w) = QUOTES
    \<and> (\<forall>b w'. rasterize_svg_to_png lib w svg_path png_path sz quote = Inr (b, w')
          \<longrightarrow> quotes w' = QUOTES)
    \<and> (\<forall>w'. main lib randbelow base ts w = Inr w' \<longrightarrow> quotes w' = QUOTES)"
proof (intro conjI allI impI)
  show "length QUOTES = 10" by (simp add: QUOTES_def)
next
  fix q assume "pick_quote randbelow w = Inr q"
  then show "q \<in> set QUOTES"
    using random_choice_member [of randbelow "quotes w" q] assms by (simp add: pick_quote_def)
next
  show "quotes (save_svg svg out_path w) = QUOTES" using assms by (simp add: save_svg_def)
next
  fix b w' assume "rasterize_svg_to_png lib w svg_path png_path sz quote = Inr (b, w')"
  from rasterize_quotes [OF this] assms show "quotes w' = QUOTES" by simp
next
  fix w' assume "main lib randbelow base ts w = Inr w'"
  from main_quotes [OF this] assms show "quotes w' = QUOTES" by simp
qed

theorem quote_table_fixed_witness:
  "quotes (initial_world True Map.empty {}) = QUOTES
   \<and> pick_quote (\<lambda>n. 4) (initial_world True Map.empty {}) = Inr ''Progress, not perfection.''
   \<and> ''Progress, not perfection.'' \<in> set QUOTES
   \<and> (\<exists>w'. rasterize_svg_to_png plain_pil (initial_world True Map.empty {}) ''q.svg'' ''q.png'' 1080
               (Some ''Progress, not perfection.'') = Inr (True, w') \<and> quotes w' = QUOTES)
   \<and> (\<exists>w'. main plain_pil (\<lambda>n. 4) ''.'' ''20250101-120000'' (initial_world True Map.empty {}) = Inr w'
          \<and> quotes w' = QUOTES)"
proof -
  let ?w = "initial_world True Map.empty {}"
  have a: "quotes ?w = QUOTES" by (simp add: initial_world_def)
  have p: "pick_quote (\<lambda>n. 4) ?w = Inr ''Progress, not perfection.''"
    by (simp add: pick_quote_def random_choice_def initial_world_def QUOTES_def)
  have av: "pil_available ?w" by (simp add: initial_world_def)
  from rasterize_returns [OF av, of plain_pil "''q.svg''" "''q.png''" 1080 "''Progress, not perfection.''"]
  obtain w1 where r: "rasterize_svg_to_png plain_pil ?w ''q.svg'' ''q.png'' 1080
               (Some ''Progress, not perfection.'') = Inr (True, w1)" by blast
  from main_returns [OF a, of "\<lambda>n. 4" plain_pil "''.''" "''20250101-120000''"]
  obtain w2 where m: "main plain_pil (\<lambda>n. 4) ''.'' ''20250101-120000'' ?w = Inr w2" by auto
  note t = quote_table_fixed [OF a, of "\<lambda>n. 4" "''x''" "''q.svg''" plain_pil "''q.svg''" "''q.png''" 1080
      "Some ''Progress, not perfection.''" "''.''" "''20250101-120000''"]
  from t p have "''Progress, not perfection.'' \<in> set QUOTES" by blast
  moreover from t r have "quotes w1 = QUOTES" by blast
  moreover from t m have "quotes w2 = QUOTES" by blast
  ultimately show ?thesis using a p r m by blast
qed

subsection \<open>The frame of the vector document\<close>


subsection \<open>Joining and replacing\<close>




subsection \<open>The characters of the wrapped lines\<close>



lemma wrap_stepE:
  assumes "wrap_step width chunks lines = (chunks', lines')"
  obtains pre chunks2 cur_line3 where
    "(if strip (hd chunks) = [] \<and> lines \<noteq> [] then tl chunks else chunks) = pre @ chunks2"
    and "sum_list (map length pre) \<le> width"
    and "chunks2 = [] \<or> width < sum_list (map length pre) + length (hd chunks2)"
    and "(chunks', cur_line3) =
          (if chunks2 \<noteq> [] \<and> length (hd chunks2) > width
           then handle_long_word width chunks2 pre (sum_list (map length pre))
           else (chunks2, pre))"
    and "lines' =
          (if (if cur_line3 \<noteq> [] \<and> strip (last cur_line3) = [] then butlast cur_line3 else cur_line3) \<noteq> []
           then lines @ [concat (if cur_line3 \<noteq> [] \<and> strip (last cur_line3) = []
                                 then butlast cur_line3 else cur_line3)]
           else lines)"
proof -
  define chunks1 where
    "chunks1 = (if strip (hd chunks) = [] \<and> lines \<noteq> [] then tl chunks else chunks)"
  obtain cur_line cur_len chunks2 where
    tf: "take_fitting width chunks1 [] 0 = (cur_line, cur_len, chunks2)"
    by (cases "take_fitting width chunks1 [] 0") auto
  from take_fitting_split [OF tf] have
    pre: "chunks1 = cur_line @ chunks2" "cur_len = sum_list (map length cur_line)"
    by auto
  from take_fitting_bound [OF tf] have b: "sum_list (map length cur_line) \<le> width"
    using pre(2) by simp
  from take_fitting_stop [OF tf] have
    st: "chunks2 = [] \<or> width < sum_list (map length cur_line) + length (hd chunks2)"
    using pre(2) by auto
  obtain c3 l3 where r: "(c3, l3) =
          (if chunks2 \<noteq> [] \<and> length (hd chunks2) > width
           then handle_long_word width chunks2 cur_line (sum_list (map length cur_line))
           else (chunks2, cur_line))"
    by (metis surj_pair)
  have "wrap_step width chunks lines =
     (c3, if (if l3 \<noteq> [] \<and> strip (last l3) = [] then butlast l3 else l3) \<noteq> []
          then lines @ [concat (if l3 \<noteq> [] \<and> strip (last l3) = [] then butlast l3 else l3)]
          else lines)"
    unfolding wrap_step_def chunks1_def [symmetric] Let_def tf prod.case pre(2) r [symmetric]
    by simp
  with assms have "chunks' = c3" and
    "lines' = (if (if l3 \<noteq> [] \<and> strip (last l3) = [] then butlast l3 else l3) \<noteq> []
          then lines @ [concat (if l3 \<noteq> [] \<and> strip (last l3) = [] then butlast l3 else l3)]
          else lines)"
    by simp_all
  with that [of cur_line chunks2 l3] pre(1) b st r show thesis
    by (simp add: chunks1_def)
qed


lemma rfind_less: "rfind c s e < int e"
proof (cases "c \<in> set (take e s)")
  case True
  define p where "p = take e s"
  define k where "k = length (takeWhile (\<lambda>x. x \<noteq> c) (rev p))"
  from True have "c \<in> set p" by (simp add: p_def)
  then have "p \<noteq> []" by auto
  then have "0 < length p" by simp
  moreover have "length p \<le> e" by (simp add: p_def)
  ultimately have "length p - 1 - k < e" by arith
  with True show ?thesis by (simp add: rfind_def Let_def p_def k_def)
next
  case False
  then show ?thesis by (simp add: rfind_def Let_def)
qed

lemma handle_long_wordE:
  assumes "handle_long_word width cs cl n = (cs', cl')"
  obtains e where "cs' = drop e (hd cs) # tl cs" and "cl' = cl @ [take e (hd cs)]"
    and "0 < width \<longrightarrow> e \<le> width - n"
proof -
  define space_left where "space_left = (if width < 1 then 1 else width - n)"
  define hy where "hy = rfind hyphen (hd cs) space_left"
  define e where "e = (if length (hd cs) > space_left \<and> hy > 0
                    \<and> (\<exists>c \<in> set (take (nat hy) (hd cs)). c \<noteq> hyphen)
                 then nat (hy + 1) else space_left)"
  have "handle_long_word width cs cl n = (drop e (hd cs) # tl cs, cl @ [take e (hd cs)])"
    by (simp only: handle_long_word_def Let_def space_left_def hy_def e_def)
  with assms have 1: "cs' = drop e (hd cs) # tl cs" and 2: "cl' = cl @ [take e (hd cs)]"
    by simp_all
  have "hy < int space_left" unfolding hy_def by (rule rfind_less)
  then have "e \<le> space_left" by (auto simp: e_def)
  then have 3: "0 < width \<longrightarrow> e \<le> width - n" by (simp add: space_left_def split: if_splits)
  from that [OF 1 2 3] show thesis .
qed



lemma wrap_step_width:
  assumes "wrap_step width chunks lines = (chunks', lines')" and "0 < width"
    and "\<forall>l \<in> set lines. length l \<le> width"
  shows "\<forall>l \<in> set lines'. length l \<le> width"
proof -
  from assms(1) obtain pre chunks2 cur_line3 where
    b: "sum_list (map length pre) \<le> width"
    and r: "(chunks', cur_line3) =
          (if chunks2 \<noteq> [] \<and> length (hd chunks2) > width
           then handle_long_word width chunks2 pre (sum_list (map length pre))
           else (chunks2, pre))"
    and l: "lines' =
          (if (if cur_line3 \<noteq> [] \<and> strip (last cur_line3) = [] then butlast cur_line3 else cur_line3) \<noteq> []
           then lines @ [concat (if cur_line3 \<noteq> [] \<and> strip (last cur_line3) = []
                                 then butlast cur_line3 else cur_line3)]
           else lines)"
    by (rule wrap_stepE)
  have c3: "length (concat cur_line3) \<le> width"
  proof (cases "chunks2 \<noteq> [] \<and> length (hd chunks2) > width")
    case True
    with r have h: "handle_long_word width chunks2 pre (sum_list (map length pre)) = (chunks', cur_line3)"
      by simp
    from h obtain e where "chunks' = drop e (hd chunks2) # tl chunks2"
      and "cur_line3 = pre @ [take e (hd chunks2)]"
      and "0 < width \<longrightarrow> e \<le> width - sum_list (map length pre)"
      by (rule handle_long_wordE)
    with b assms(2) show ?thesis by (simp add: length_concat)
  next
    case False
    with r b show ?thesis by (simp add: length_concat)
  qed
  have "length (concat (butlast cur_line3)) \<le> length (concat cur_line3)"
    by (cases cur_line3 rule: rev_cases) simp_all
  with c3 have "length (concat (if cur_line3 \<noteq> [] \<and> strip (last cur_line3) = []
                                 then butlast cur_line3 else cur_line3)) \<le> width"
    by simp
  with assms(3) show ?thesis unfolding l by auto
qed

lemma wrap_loop_width:
  "0 < width \<Longrightarrow> \<forall>l \<in> set lines. length l \<le> width
     \<Longrightarrow> \<forall>l \<in> set (wrap_loop width chunks lines). length l \<le> width"
proof (induction width chunks lines rule: wrap_loop.induct)
  case (1 width chunks lines)
  show ?case
  proof (cases "chunks = []")
    case True
    with "1.prems" show ?thesis by (simp add: wrap_loop.simps)
  next
    case False
    obtain chunks' lines' where ws: "wrap_step width chunks lines = (chunks', lines')"
      by (cases "wrap_step width chunks lines") auto
    from False ws have eq: "wrap_loop width chunks lines = wrap_loop width chunks' lines'"
      by (subst wrap_loop.simps) simp
    from wrap_step_width [OF ws "1.prems"]
    have "\<forall>l \<in> set lines'. length l \<le> width" .
    from "1.IH" [OF False ws [symmetric] "1.prems"(1) this]
    show ?thesis unfolding eq .
  qed
qed

subsection \<open>The wrapped lines of the two renderers\<close>







text \<open>
  C2, as the code has it. For every quote, no line of the wrap used by both renderers
  (\<open>textwrap.wrap\<close> in the raster renderer, \<open>textwrap.fill\<close>, its lines joined by
  newlines, in the vector renderer) is longer than 32 characters. There is no exception for long words: a word of more
  than 32 characters is cut into pieces of at most 32 characters.
\<close>

theorem wrap_line_width:
  "\<exists>lines. textwrap_wrap quote 32 = Inr lines
     \<and> textwrap_fill quote 32 = Inr (join nl lines)
     \<and> (\<forall>l \<in> set lines. length l \<le> 32)"
  using wrap_loop_width [of 32 "[]" "split_text (munge_whitespace quote)"]
  by (simp add: textwrap_wrap_32 textwrap_fill_32 nl_def)

theorem wrap_line_width_witness:
  "textwrap_wrap ''The only limit to our realization of tomorrow is our doubts of today.'' 32
     = Inr [''The only limit to our'', ''realization of tomorrow is our'', ''doubts of today.'']
   \<and> ''realization of tomorrow is our''
       \<in> set [''The only limit to our'', ''realization of tomorrow is our'', ''doubts of today.'']
   \<and> length ''The only limit to our'' \<le> 32
   \<and> length ''realization of tomorrow is our'' \<le> 32
   \<and> length ''doubts of today.'' \<le> 32"
proof -
  have b: "textwrap_wrap ''The only limit to our realization of tomorrow is our doubts of today.'' 32
     = Inr [''The only limit to our'', ''realization of tomorrow is our'', ''doubts of today.'']"
    by code_simp
  from wrap_line_width [of "''The only limit to our realization of tomorrow is our doubts of today.''"] b
  show ?thesis by auto
qed

text \<open>The wrap of a single word of 45 characters: the word is cut after its 32nd
  character and is not one of the lines.\<close>

theorem long_word_broken:
  "textwrap_wrap ''pneumonoultramicroscopicsilicovolcanoconiosis'' 32
     = Inr [''pneumonoultramicroscopicsilicovo'', ''lcanoconiosis'']
   \<and> length ''pneumonoultramicroscopicsilicovolcanoconiosis'' = 45
   \<and> ''pneumonoultramicroscopicsilicovolcanoconiosis''
        \<notin> set [''pneumonoultramicroscopicsilicovo'', ''lcanoconiosis'']"
proof -
  have "textwrap_wrap ''pneumonoultramicroscopicsilicovolcanoconiosis'' 32
     = Inr [''pneumonoultramicroscopicsilicovo'', ''lcanoconiosis'']"
    by code_simp
  then show ?thesis by simp
qed

subsection \<open>Quotes made of plain words\<close>





























end
